theory Spec2Isabelle
  imports Complex_Main "HOL-Library.Sublist"
begin

section \<open>The claim ledger (src/coordinator.py, src/coordination_server.py)\<close>

text \<open>
  Both coordinators keep one dictionary from job URL to an entry dictionary. An entry is
  written with the keys \<^verbatim>\<open>status\<close>, \<^verbatim>\<open>holder\<close>, \<^verbatim>\<open>worker\<close>, \<^verbatim>\<open>claimed_at\<close>,
  \<^verbatim>\<open>updated_at\<close> and \<^verbatim>\<open>error\<close>; a key that is missing from the dictionary is
  \<open>None\<close> in the record below, and \<^verbatim>\<open>{**entry, k: v}\<close> is a record update.
  Python strings are sequences of code points and are modelled as HOL strings, one list
  element per code point. \<^verbatim>\<open>time.time()\<close> is a parameter \<open>now\<close> of each operation: the
  reads of the clock inside one call are taken at one instant, and timestamps are real
  numbers. The ledger itself is the content of the JSON file (\<^verbatim>\<open>_read\<close>/\<^verbatim>\<open>_write\<close>) or
  the server's \<^verbatim>\<open>_data\<close>; every operation runs under the lock and is a state transformer.
\<close>

type_synonym timestamp = real

record entry =
  status :: "string option"
  holder :: "string option"
  worker :: "string option"
  claimed_at :: "timestamp option"
  updated_at :: "timestamp option"
  error :: "string option"

type_synonym ledger = "string \<rightharpoonup> entry"

definition STATUS_HELD :: string where "STATUS_HELD = ''held''"
definition STATUS_DONE :: string where "STATUS_DONE = ''done''"
definition STATUS_FAILED :: string where "STATUS_FAILED = ''failed''"

text \<open>The empty dictionary \<^verbatim>\<open>{}\<close> that \<^verbatim>\<open>data.get(url, {})\<close> falls back to.\<close>

definition empty_entry :: entry where
  "empty_entry = \<lparr>status = None, holder = None, worker = None,
                  claimed_at = None, updated_at = None, error = None\<rparr>"

text \<open>\<^verbatim>\<open>entry.get("updated_at", 0)\<close> and \<^verbatim>\<open>entry.get("claimed_at", now) if entry else now\<close>.\<close>

definition updated_or_0 :: "entry \<Rightarrow> timestamp" where
  "updated_or_0 e = (case updated_at e of None \<Rightarrow> 0 | Some u \<Rightarrow> u)"

definition claimed_or :: "timestamp \<Rightarrow> entry option \<Rightarrow> timestamp" where
  "claimed_or now eo =
     (case eo of None \<Rightarrow> now
      | Some e \<Rightarrow> (case claimed_at e of None \<Rightarrow> now | Some c \<Rightarrow> c))"

subsection \<open>URLCoordinator: the file-backed coordinator\<close>

text \<open>
  \<^verbatim>\<open>URLCoordinator.claim\<close>: returns the grant and the ledger after the call. The written
  entry has exactly the four keys status, holder, claimed_at and updated_at.
\<close>

definition claim :: "int \<Rightarrow> timestamp \<Rightarrow> string \<Rightarrow> string \<Rightarrow> ledger \<Rightarrow> bool \<times> ledger" where
  "claim stale_timeout now url hold data =
     (let ent = data url;
          written = data(url \<mapsto> \<lparr>status = Some STATUS_HELD, holder = Some hold, worker = None,
                                  claimed_at = Some (claimed_or now ent),
                                  updated_at = Some now, error = None\<rparr>)
      in case ent of
           None \<Rightarrow> (True, written)
         | Some e \<Rightarrow>
             if status e = Some STATUS_DONE \<or> status e = Some STATUS_FAILED then (False, data)
             else if status e = Some STATUS_HELD
                     \<and> now - updated_or_0 e < real_of_int stale_timeout then (False, data)
             else (True, written))"

text \<open>\<^verbatim>\<open>URLCoordinator.batch_claim\<close>: the loop over \<^verbatim>\<open>urls\<close> calling \<^verbatim>\<open>self.claim\<close>.\<close>

fun batch_claim_loop ::
  "int \<Rightarrow> timestamp \<Rightarrow> string \<Rightarrow> string list \<Rightarrow> string list \<times> string list \<Rightarrow> ledger
     \<Rightarrow> (string list \<times> string list) \<times> ledger" where
  "batch_claim_loop stale_timeout now hold [] (granted, denied) data = ((granted, denied), data)"
| "batch_claim_loop stale_timeout now hold (url # urls) (granted, denied) data =
     (case claim stale_timeout now url hold data of
        (True, data') \<Rightarrow> batch_claim_loop stale_timeout now hold urls (granted @ [url], denied) data'
      | (False, data') \<Rightarrow> batch_claim_loop stale_timeout now hold urls (granted, denied @ [url]) data')"

definition batch_claim ::
  "int \<Rightarrow> timestamp \<Rightarrow> string list \<Rightarrow> string \<Rightarrow> ledger \<Rightarrow> (string list \<times> string list) \<times> ledger" where
  "batch_claim stale_timeout now urls hold data =
     batch_claim_loop stale_timeout now hold urls ([], []) data"

text \<open>\<^verbatim>\<open>URLCoordinator._update_status\<close>, \<^verbatim>\<open>mark_done\<close> and \<^verbatim>\<open>mark_failed\<close>.\<close>

definition get_or_empty :: "ledger \<Rightarrow> string \<Rightarrow> entry" where
  "get_or_empty data url = (case data url of None \<Rightarrow> empty_entry | Some e \<Rightarrow> e)"

definition update_status :: "timestamp \<Rightarrow> string \<Rightarrow> string \<Rightarrow> ledger \<Rightarrow> ledger" where
  "update_status now url new_status data =
     data(url \<mapsto> (get_or_empty data url)\<lparr>status := Some new_status, updated_at := Some now\<rparr>)"

definition mark_done :: "timestamp \<Rightarrow> string \<Rightarrow> ledger \<Rightarrow> ledger" where
  "mark_done now url data = update_status now url STATUS_DONE data"

definition mark_failed :: "timestamp \<Rightarrow> string \<Rightarrow> string \<Rightarrow> ledger \<Rightarrow> ledger" where
  "mark_failed now url err data =
     data(url \<mapsto> (get_or_empty data url)\<lparr>status := Some STATUS_FAILED, updated_at := Some now,
                                           error := Some (take 200 err)\<rparr>)"

text \<open>\<^verbatim>\<open>URLCoordinator.is_available\<close>: a failed entry is available, although \<^verbatim>\<open>claim\<close> denies it.\<close>

definition is_available :: "int \<Rightarrow> timestamp \<Rightarrow> string \<Rightarrow> ledger \<Rightarrow> bool" where
  "is_available stale_timeout now url data =
     (case data url of
        None \<Rightarrow> True
      | Some e \<Rightarrow>
          if status e = Some STATUS_DONE then False
          else if status e = Some STATUS_HELD
               then real_of_int stale_timeout \<le> now - updated_or_0 e
          else True)"

subsection \<open>The HTTP coordination server\<close>

text \<open>
  A handler gets the fields already read from the JSON body (\<^verbatim>\<open>body.get("url", "")\<close>
  and so on) and returns its reply with the new \<^verbatim>\<open>_data\<close>. A reply is the HTTP status
  code and the \<^verbatim>\<open>ok\<close> field of the JSON answer.
\<close>

record reply =
  http_code :: nat
  ok :: bool

definition is_stale :: "int \<Rightarrow> timestamp \<Rightarrow> entry \<Rightarrow> bool" where
  "is_stale stale_timeout now e =
     (if status e \<noteq> Some STATUS_HELD then False
      else real_of_int stale_timeout \<le> now - updated_or_0 e)"

definition held_entry :: "timestamp \<Rightarrow> string \<Rightarrow> string \<Rightarrow> entry option \<Rightarrow> entry" where
  "held_entry now hold wrk ent =
     \<lparr>status = Some STATUS_HELD, holder = Some hold, worker = Some wrk,
      claimed_at = Some (claimed_or now ent), updated_at = Some now, error = None\<rparr>"

text \<open>The \<^verbatim>\<open>/claim\<close> handler.\<close>

definition server_claim ::
  "int \<Rightarrow> timestamp \<Rightarrow> string \<Rightarrow> string \<Rightarrow> string \<Rightarrow> ledger \<Rightarrow> reply \<times> ledger" where
  "server_claim stale_timeout now url hold wrk data =
     (if url = [] then (\<lparr>http_code = 400, ok = False\<rparr>, data)
      else
        let ent = data url;
            written = data(url \<mapsto> held_entry now hold wrk ent)
        in case ent of
             None \<Rightarrow> (\<lparr>http_code = 200, ok = True\<rparr>, written)
           | Some e \<Rightarrow>
               if status e = Some STATUS_DONE \<or> status e = Some STATUS_FAILED
               then (\<lparr>http_code = 200, ok = False\<rparr>, data)
               else if status e = Some STATUS_HELD \<and> \<not> is_stale stale_timeout now e
               then (\<lparr>http_code = 200, ok = False\<rparr>, data)
               else (\<lparr>http_code = 200, ok = True\<rparr>, written))"

text \<open>
  The \<^verbatim>\<open>/batch_claim\<close> handler: \<^verbatim>\<open>if not urls\<close> answers two empty lists, otherwise one loop
  under the lock with its own copy of the decision. No url of the list is checked for
  being empty.
\<close>

fun server_batch_loop ::
  "int \<Rightarrow> timestamp \<Rightarrow> string \<Rightarrow> string \<Rightarrow> string list \<Rightarrow> string list \<times> string list \<Rightarrow> ledger
     \<Rightarrow> (string list \<times> string list) \<times> ledger" where
  "server_batch_loop stale_timeout now hold wrk [] (granted, denied) data =
     ((granted, denied), data)"
| "server_batch_loop stale_timeout now hold wrk (url # urls) (granted, denied) data =
     (let ent = data url;
          claimable =
            (case ent of
               None \<Rightarrow> True
             | Some e \<Rightarrow>
                 if status e = Some STATUS_DONE \<or> status e = Some STATUS_FAILED then False
                 else if status e = Some STATUS_HELD \<and> \<not> is_stale stale_timeout now e then False
                 else True)
      in if claimable
         then server_batch_loop stale_timeout now hold wrk urls (granted @ [url], denied)
                (data(url \<mapsto> held_entry now hold wrk ent))
         else server_batch_loop stale_timeout now hold wrk urls (granted, denied @ [url]) data)"

definition server_batch_claim ::
  "int \<Rightarrow> timestamp \<Rightarrow> string list \<Rightarrow> string \<Rightarrow> string \<Rightarrow> ledger
     \<Rightarrow> (string list \<times> string list) \<times> ledger" where
  "server_batch_claim stale_timeout now urls hold wrk data =
     (if urls = [] then (([], []), data)
      else server_batch_loop stale_timeout now hold wrk urls ([], []) data)"

text \<open>The \<^verbatim>\<open>/done\<close> and \<^verbatim>\<open>/failed\<close> handlers.\<close>

definition server_done :: "timestamp \<Rightarrow> string \<Rightarrow> string \<Rightarrow> ledger \<Rightarrow> reply \<times> ledger" where
  "server_done now url wrk data =
     (if url = [] then (\<lparr>http_code = 400, ok = False\<rparr>, data)
      else (\<lparr>http_code = 200, ok = True\<rparr>,
            data(url \<mapsto> (get_or_empty data url)\<lparr>status := Some STATUS_DONE, worker := Some wrk,
                                                  updated_at := Some now\<rparr>)))"

definition server_failed ::
  "timestamp \<Rightarrow> string \<Rightarrow> string \<Rightarrow> string \<Rightarrow> ledger \<Rightarrow> reply \<times> ledger" where
  "server_failed now url err wrk data =
     (let err200 = take 200 err
      in if url = [] then (\<lparr>http_code = 400, ok = False\<rparr>, data)
         else (\<lparr>http_code = 200, ok = True\<rparr>,
               data(url \<mapsto> (get_or_empty data url)\<lparr>status := Some STATUS_FAILED,
                                                     worker := Some wrk, updated_at := Some now,
                                                     error := Some err200\<rparr>)))"

text \<open>
  What a caller sees of one \<^verbatim>\<open>/claim\<close> request: the \<^verbatim>\<open>ok\<close> field of the reply
  (\<^verbatim>\<open>HTTPCoordinator.claim\<close> returns \<^verbatim>\<open>bool(resp and resp.get("ok"))\<close>; a reply with
  status 400 ends as the default \<^verbatim>\<open>{"ok": False}\<close>).
\<close>

definition claim_request ::
  "int \<Rightarrow> timestamp \<Rightarrow> string \<Rightarrow> string \<Rightarrow> string \<Rightarrow> ledger \<Rightarrow> bool \<times> ledger" where
  "claim_request stale_timeout now hold wrk url data =
     (case server_claim stale_timeout now url hold wrk data of (r, data') \<Rightarrow> (ok r, data'))"

subsection \<open>Sequential claiming, as the specification words it\<close>

text \<open>
  The specification compares \<^verbatim>\<open>batch_claim\<close> with issuing \<^verbatim>\<open>claim\<close> once per key, in list
  order, from the same starting ledger, every grant being visible to the claims after it.
  \<open>sequential_claims\<close> is that reference behaviour for any single-key claim operation.
\<close>

definition sequential_claims ::
  "(string \<Rightarrow> ledger \<Rightarrow> bool \<times> ledger) \<Rightarrow> string list \<Rightarrow> ledger
     \<Rightarrow> (string list \<times> string list) \<times> ledger" where
  "sequential_claims claim1 keys data =
     foldl (\<lambda>((granted, denied), s) k.
              case claim1 k s of
                (True, s') \<Rightarrow> ((granted @ [k], denied), s')
              | (False, s') \<Rightarrow> ((granted, denied @ [k]), s'))
           (([], []), data) keys"

section \<open>The HTTP client (src/coordinator.py, HTTPCoordinator)\<close>

text \<open>
  The network is the environment. One request ends in a parsed JSON answer, in
  \<^verbatim>\<open>requests.ConnectionError\<close>, in \<^verbatim>\<open>requests.Timeout\<close>, or in another
  \<^verbatim>\<open>requests.RequestException\<close> (an HTTP error status through \<^verbatim>\<open>raise_for_status\<close>, an
  unreadable body). What the client does to the world is a trace of requests and sleeps;
  the network answers the next request from the trace so far.
\<close>

datatype json =
    JNull
  | JBool bool
  | JNum int
  | JStr string
  | JList "json list"
  | JObj "(string \<times> json) list"

datatype outcome = Answer json | ConnectionError | Timeout | RequestException

datatype event = Post string | Get string | Sleep nat

type_synonym network = "event list \<Rightarrow> outcome"

datatype py_exception = AttributeError

definition TIMEOUT :: nat where "TIMEOUT = 10"
definition RETRY_BACKOFF :: nat where "RETRY_BACKOFF = 2"

text \<open>Python truthiness of a JSON value, and \<^verbatim>\<open>resp.get(key, default)\<close>.\<close>

fun truthy :: "json \<Rightarrow> bool" where
  "truthy JNull = False"
| "truthy (JBool b) = b"
| "truthy (JNum n) = (n \<noteq> 0)"
| "truthy (JStr s) = (s \<noteq> [])"
| "truthy (JList xs) = (xs \<noteq> [])"
| "truthy (JObj kvs) = (kvs \<noteq> [])"

fun dict_get :: "json \<Rightarrow> string \<Rightarrow> json \<Rightarrow> py_exception + json" where
  "dict_get (JObj kvs) k dflt = Inr (case map_of kvs k of None \<Rightarrow> dflt | Some v \<Rightarrow> v)"
| "dict_get _ k dflt = Inl AttributeError"

text \<open>
  \<^verbatim>\<open>_post\<close> and \<^verbatim>\<open>_get\<close>: the loop \<^verbatim>\<open>for attempt in range(2)\<close>. The request is the event
  sent; a loop that ran out of attempts would return \<^verbatim>\<open>None\<close>.
\<close>

fun request_attempts ::
  "network \<Rightarrow> event \<Rightarrow> json \<Rightarrow> nat list \<Rightarrow> event list \<Rightarrow> json \<times> event list" where
  "request_attempts net req dflt [] tr = (JNull, tr)"
| "request_attempts net req dflt (attempt # rest) tr =
     (case net tr of
        Answer j \<Rightarrow> (j, tr @ [req])
      | ConnectionError \<Rightarrow>
          if attempt = 0 then request_attempts net req dflt rest (tr @ [req, Sleep RETRY_BACKOFF])
          else (dflt, tr @ [req])
      | Timeout \<Rightarrow>
          if attempt = 0 then request_attempts net req dflt rest (tr @ [req, Sleep RETRY_BACKOFF])
          else (dflt, tr @ [req])
      | RequestException \<Rightarrow> (dflt, tr @ [req]))"

definition http_post :: "network \<Rightarrow> string \<Rightarrow> json \<Rightarrow> event list \<Rightarrow> json \<times> event list" where
  "http_post net path dflt tr = request_attempts net (Post path) dflt [0, 1] tr"

definition http_get :: "network \<Rightarrow> string \<Rightarrow> json \<Rightarrow> event list \<Rightarrow> json \<times> event list" where
  "http_get net path dflt tr = request_attempts net (Get path) dflt [0, 1] tr"

text \<open>
  \<^verbatim>\<open>HTTPCoordinator.claim\<close> and \<^verbatim>\<open>HTTPCoordinator.is_available\<close>:
  \<^verbatim>\<open>bool(resp and resp.get(...))\<close>, where \<^verbatim>\<open>.get\<close> on an answer that is not an object raises.
\<close>

definition http_claim :: "network \<Rightarrow> event list \<Rightarrow> (py_exception + bool) \<times> event list" where
  "http_claim net tr =
     (case http_post net ''/claim'' (JObj [(''ok'', JBool False)]) tr of
        (resp, tr') \<Rightarrow>
          if \<not> truthy resp then (Inr False, tr')
          else (case dict_get resp ''ok'' JNull of
                  Inl e \<Rightarrow> (Inl e, tr')
                | Inr v \<Rightarrow> (Inr (truthy v), tr')))"

definition http_is_available :: "network \<Rightarrow> event list \<Rightarrow> (py_exception + bool) \<times> event list" where
  "http_is_available net tr =
     (case http_get net ''/available'' (JObj [(''available'', JBool True)]) tr of
        (resp, tr') \<Rightarrow>
          if \<not> truthy resp then (Inr False, tr')
          else (case dict_get resp ''available'' (JBool True) of
                  Inl e \<Rightarrow> (Inl e, tr')
                | Inr v \<Rightarrow> (Inr (truthy v), tr')))"

section \<open>Slots and the pipeline orchestrator (src/dataset_mover.py)\<close>

text \<open>
  The slot statuses are the string constants of \<^verbatim>\<open>TabState\<close> and the two markers
  \<^verbatim>\<open>"_counted"\<close> and \<^verbatim>\<open>"_recycled"\<close> that \<^verbatim>\<open>_run_pipeline\<close> assigns.
\<close>

datatype slot_status =
    PENDING | NAVIGATING | DETAIL_WAIT | SCANNING | NULL_CLICKED | CONVERTING | READY
  | ADD_CLICKED | CONFIRMING | VERIFYING | DONE | ERROR | BLACKLISTED
  | COUNTED | RECYCLED

definition MAX_CARD_RETRIES :: nat where "MAX_CARD_RETRIES = 2"
definition BLACKLIST_THRESHOLD :: nat where "BLACKLIST_THRESHOLD = 3"

text \<open>
  \<^verbatim>\<open>TabState\<close>, with the attributes the orchestrator reads or writes. The page handle,
  the timers and the bounded history are the driver's and are left out.
\<close>

record tab_state =
  job_url :: string
  tab_status :: slot_status
  error_msg :: string
  retry_count :: nat
  error_history :: "string list"
  consecutive_errors :: nat
  tick_count :: nat

definition new_tab :: "string \<Rightarrow> tab_state" where
  "new_tab url = \<lparr>job_url = url, tab_status = PENDING, error_msg = [], retry_count = 0,
                  error_history = [], consecutive_errors = 0, tick_count = 0\<rparr>"

definition transition :: "slot_status \<Rightarrow> string \<Rightarrow> tab_state \<Rightarrow> tab_state" where
  "transition new_status message tab =
     (let t = tab\<lparr>tab_status := new_status\<rparr>
      in if new_status = ERROR
         then t\<lparr>error_msg := message, error_history := error_history t @ [message],
                consecutive_errors := consecutive_errors t + 1\<rparr>
         else if new_status = DONE then t\<lparr>consecutive_errors := 0\<rparr>
         else t)"

definition reset_for :: "string \<Rightarrow> bool \<Rightarrow> tab_state \<Rightarrow> tab_state" where
  "reset_for url is_retry tab =
     (let t = tab\<lparr>job_url := url, tab_status := PENDING, error_msg := [], tick_count := 0\<rparr>
      in if is_retry then t\<lparr>retry_count := retry_count t + 1\<rparr>
         else t\<lparr>retry_count := 0, consecutive_errors := 0\<rparr>)"

text \<open>
  The coordinator as the pipeline uses it: the calls \<^verbatim>\<open>mark_done\<close> and \<^verbatim>\<open>mark_failed\<close>
  that returned are recorded in call order.
\<close>

datatype coord_call = Mark_done string | Mark_failed string string

subsection \<open>The tick functions\<close>

text \<open>
  The browser is the environment. A tick of one of the nine driver states either leaves the
  slot where it is or calls \<^verbatim>\<open>tab.transition\<close> once; \<open>tick_transitions\<close> lists, for each
  state, the targets its tick function transitions to in the source.
\<close>

datatype driver = Stay | Move slot_status string

fun tick_transitions :: "slot_status \<Rightarrow> slot_status list" where
  "tick_transitions PENDING = [NAVIGATING, ERROR]"
| "tick_transitions NAVIGATING = [DETAIL_WAIT, ERROR]"
| "tick_transitions DETAIL_WAIT = [SCANNING, ERROR]"
| "tick_transitions SCANNING = [READY, NULL_CLICKED, ERROR]"
| "tick_transitions NULL_CLICKED = [CONVERTING, READY, ERROR]"
| "tick_transitions CONVERTING = [READY, ERROR]"
| "tick_transitions READY = [ADD_CLICKED, ERROR]"
| "tick_transitions ADD_CLICKED = [CONFIRMING, ERROR]"
| "tick_transitions CONFIRMING = [VERIFYING]"
| "tick_transitions _ = []"

definition driver_tick :: "driver \<Rightarrow> tab_state \<Rightarrow> tab_state" where
  "driver_tick d tab =
     (case d of
        Stay \<Rightarrow> tab
      | Move target message \<Rightarrow>
          if target \<in> set (tick_transitions (tab_status tab)) then transition target message tab
          else tab)"

text \<open>
  \<^verbatim>\<open>tick_verifying\<close>: the confirmation query is \<^verbatim>\<open>page.goto(tab.job_url)\<close>; it lands on a
  final URL or raises. Each of the three branches only logs, then \<^verbatim>\<open>mark_done\<close> and the
  transition to \<^verbatim>\<open>DONE\<close> follow. \<open>raised\<close> is the exception, if any, that the first
  \<^verbatim>\<open>coordinator.mark_done\<close> raises (a lock timeout, say): the outer handler then calls
  \<^verbatim>\<open>mark_done\<close> again and makes the transition itself. An exception from inside the
  handler would leave the function and is outside this model. The third component is the
  list of log lines.
\<close>

datatype goto_result = Landed string | Goto_failed string

definition tick_verifying ::
  "goto_result \<Rightarrow> string option \<Rightarrow> tab_state \<Rightarrow> coord_call list
     \<Rightarrow> tab_state \<times> coord_call list \<times> string list" where
  "tick_verifying g raised tab calls =
     (let note = (case g of
                    Landed final_url \<Rightarrow>
                      if \<not> sublist ''/annotate/job/'' final_url
                      then ''Server confirmed done (redirected to board)''
                      else ''Job still accessible after add - treating as done''
                  | Goto_failed ve \<Rightarrow> ''Server verify failed ('' @ ve @ '') - treating as done'')
      in case raised of
           None \<Rightarrow>
             (transition DONE ''added to dataset'' tab, calls @ [Mark_done (job_url tab)],
              [note, ''Added to dataset''])
         | Some e \<Rightarrow>
             (transition DONE (''done (verify error: '' @ e @ '')'') tab,
              calls @ [Mark_done (job_url tab)],
              [note, ''Added to dataset (verify skipped)'']))"

text \<open>
  \<^verbatim>\<open>_tick_slot_fast\<close>. \<open>done_elsewhere\<close> is the mid-pipeline guard
  \<^verbatim>\<open>coordinator.enabled and get_status(url)["status"] == "done"\<close>.
\<close>

record tick_env =
  done_elsewhere :: bool
  probe :: driver
  verify :: goto_result
  mark_done_raises :: "string option"

definition tick_slot_fast ::
  "tick_env \<Rightarrow> tab_state \<Rightarrow> coord_call list \<Rightarrow> tab_state \<times> coord_call list" where
  "tick_slot_fast env slot calls =
     (if tab_status slot = PENDING \<and> done_elsewhere env
      then (transition DONE ''done by another worker'' slot, calls)
      else if tab_status slot = VERIFYING
      then (case tick_verifying (verify env) (mark_done_raises env) slot calls of
              (t, c, lines) \<Rightarrow> (t, c))
      else (driver_tick (probe env) slot, calls))"

subsection \<open>The round-robin loop of \<^verbatim>\<open>_run_pipeline\<close>\<close>

text \<open>
  The local variables of \<^verbatim>\<open>_run_pipeline\<close> that every slot shares. \<^verbatim>\<open>round_num\<close> and
  \<^verbatim>\<open>any_converting\<close> only choose the sleep between rounds and the log lines.
\<close>

record shared =
  moved :: nat
  permanently_failed :: "string list"
  retry_tracker :: "string \<rightharpoonup> nat"
  blacklisted_urls :: "string set"
  queue :: "string list"
  coord_calls :: "coord_call list"

text \<open>The branch \<^verbatim>\<open>if slot.status in (DONE, ERROR, BLACKLISTED)\<close> up to the assignment.\<close>

definition recycle :: "tab_state \<Rightarrow> shared \<Rightarrow> tab_state \<times> shared" where
  "recycle slot sh =
     (if tab_status slot = DONE
      then ((transition DONE ''counted'' slot)\<lparr>tab_status := COUNTED\<rparr>, sh\<lparr>moved := moved sh + 1\<rparr>)
      else if tab_status slot = ERROR
      then
        (let failed_url = job_url slot;
             retries = (case retry_tracker sh failed_url of None \<Rightarrow> 0 | Some n \<Rightarrow> n)
         in if BLACKLIST_THRESHOLD \<le> consecutive_errors slot
            then (slot\<lparr>tab_status := BLACKLISTED\<rparr>,
                  sh\<lparr>blacklisted_urls := insert failed_url (blacklisted_urls sh),
                     permanently_failed := permanently_failed sh @ [failed_url],
                     coord_calls := coord_calls sh
                        @ [Mark_failed failed_url (''blacklisted: '' @ error_msg slot)]\<rparr>)
            else if retries < MAX_CARD_RETRIES
            then (slot\<lparr>tab_status := RECYCLED\<rparr>,
                  sh\<lparr>retry_tracker := (retry_tracker sh)(failed_url \<mapsto> retries + 1),
                     queue := queue sh @ [failed_url]\<rparr>)
            else (slot\<lparr>tab_status := RECYCLED\<rparr>,
                  sh\<lparr>permanently_failed := permanently_failed sh @ [failed_url],
                     coord_calls := coord_calls sh @ [Mark_failed failed_url (error_msg slot)]\<rparr>))
      else (slot, sh))"

text \<open>
  The assignment of the next URL: a popped URL that is blacklisted is dropped and the slot
  keeps its status.
\<close>

definition assign_next :: "tab_state \<Rightarrow> shared \<Rightarrow> tab_state \<times> shared" where
  "assign_next slot sh =
     (if tab_status slot \<in> {COUNTED, RECYCLED, BLACKLISTED}
      then (case queue sh of
              [] \<Rightarrow> (slot, sh)
            | next_url # rest \<Rightarrow>
                if next_url \<in> blacklisted_urls sh then (slot, sh\<lparr>queue := rest\<rparr>)
                else (reset_for next_url (retry_tracker sh next_url \<noteq> None) slot,
                      sh\<lparr>queue := rest\<rparr>))
      else (slot, sh))"

text \<open>The body of \<^verbatim>\<open>for slot in slots\<close>.\<close>

definition slot_iter :: "tick_env \<Rightarrow> tab_state \<Rightarrow> shared \<Rightarrow> tab_state \<times> shared" where
  "slot_iter env slot sh =
     (if tab_status slot \<in> {DONE, ERROR, BLACKLISTED}
      then (case recycle slot sh of (s1, sh1) \<Rightarrow> assign_next s1 sh1)
      else (case tick_slot_fast env (slot\<lparr>tick_count := tick_count slot + 1\<rparr>) (coord_calls sh) of
              (s1, calls) \<Rightarrow> (s1, sh\<lparr>coord_calls := calls\<rparr>)))"

text \<open>One round: the slots in list order; \<open>env i\<close> is the environment of slot \<open>i\<close>.\<close>

fun round_slots ::
  "(nat \<Rightarrow> tick_env) \<Rightarrow> nat \<Rightarrow> tab_state list \<Rightarrow> shared \<Rightarrow> tab_state list \<times> shared" where
  "round_slots env i [] sh = ([], sh)"
| "round_slots env i (slot # rest) sh =
     (case slot_iter (env i) slot sh of
        (slot', sh') \<Rightarrow>
          (case round_slots env (Suc i) rest sh' of
             (rest', sh'') \<Rightarrow> (slot' # rest', sh'')))"

text \<open>The termination check at the top of \<^verbatim>\<open>while True\<close>.\<close>

definition active :: "tab_state \<Rightarrow> bool" where
  "active s = (tab_status s \<notin> {DONE, ERROR, BLACKLISTED} \<and> tab_status s \<notin> {COUNTED, RECYCLED})"

definition finished :: "tab_state list \<Rightarrow> shared \<Rightarrow> bool" where
  "finished slots sh = (filter active slots = [] \<and> queue sh = [])"

text \<open>
  The loop needs not end (a driver can stay in one state for ever), so it runs on fuel:
  \<open>None\<close> is a loop still running when the fuel is spent. \<open>env r i\<close> is the environment
  of slot \<open>i\<close> in round \<open>r\<close>.
\<close>

fun run_loop ::
  "(nat \<Rightarrow> nat \<Rightarrow> tick_env) \<Rightarrow> nat \<Rightarrow> nat \<Rightarrow> tab_state list \<Rightarrow> shared
     \<Rightarrow> (tab_state list \<times> shared) option" where
  "run_loop env 0 r slots sh = None"
| "run_loop env (Suc fuel) r slots sh =
     (if finished slots sh then Some (slots, sh)
      else (case round_slots (env r) 0 slots sh of
              (slots', sh') \<Rightarrow> run_loop env fuel (Suc r) slots' sh'))"

text \<open>The final accounting for the slots left in \<^verbatim>\<open>DONE\<close> or \<^verbatim>\<open>ERROR\<close>.\<close>

fun final_accounting :: "tab_state list \<Rightarrow> shared \<Rightarrow> shared" where
  "final_accounting [] sh = sh"
| "final_accounting (slot # rest) sh =
     final_accounting rest
       (if tab_status slot = DONE then sh\<lparr>moved := moved sh + 1\<rparr>
        else if tab_status slot = ERROR
        then sh\<lparr>permanently_failed := permanently_failed sh @ [job_url slot],
                coord_calls := coord_calls sh @ [Mark_failed (job_url slot) (error_msg slot)]\<rparr>
        else sh)"

text \<open>
  The state after the claim phase: \<^verbatim>\<open>min(num_slots, len(queue))\<close> slots are filled from
  the front of the queue (none when \<^verbatim>\<open>num_slots\<close> is not positive).
\<close>

definition init_shared :: "string list \<Rightarrow> shared" where
  "init_shared q = \<lparr>moved = 0, permanently_failed = [], retry_tracker = Map.empty,
                    blacklisted_urls = {}, queue = q, coord_calls = []\<rparr>"

definition init_pipeline :: "string list \<Rightarrow> int \<Rightarrow> tab_state list \<times> shared" where
  "init_pipeline granted num_slots =
     (let slot_count = nat (min num_slots (int (length granted)))
      in (map new_tab (take slot_count granted), init_shared (drop slot_count granted)))"

text \<open>
  \<^verbatim>\<open>_run_pipeline\<close>: \<open>claimed\<close> is the answer of \<^verbatim>\<open>coordinator.batch_claim\<close> to the job
  URLs. The result is the returned pair \<^verbatim>\<open>(moved, permanently_failed)\<close> together with the
  slots and the coordinator calls at the end.
\<close>

definition run_pipeline ::
  "(string list \<Rightarrow> string list \<times> string list) \<Rightarrow> (nat \<Rightarrow> nat \<Rightarrow> tick_env) \<Rightarrow> nat
     \<Rightarrow> string list \<Rightarrow> int \<Rightarrow> ((nat \<times> string list) \<times> tab_state list \<times> coord_call list) option" where
  "run_pipeline claimed env fuel job_urls num_slots =
     (case claimed job_urls of
        (granted, denied) \<Rightarrow>
          if granted = [] then Some ((0, []), [], [])
          else (case init_pipeline granted num_slots of
                  (slots, sh) \<Rightarrow>
                    (case run_loop env fuel 0 slots sh of
                       None \<Rightarrow> None
                     | Some (slots', sh') \<Rightarrow>
                         (let fin = final_accounting slots' sh'
                          in Some ((moved fin, permanently_failed fin), slots', coord_calls fin)))))"

text \<open>
  Every point of a run: the state after the claim phase, and the state after any slot
  iteration from a state of the run. The slots of a round are taken in list order; the
  relation allows any slot, which covers that order.
\<close>

inductive reach :: "string list \<Rightarrow> int \<Rightarrow> tab_state list \<times> shared \<Rightarrow> bool" where
  start: "reach granted num_slots (init_pipeline granted num_slots)"
| iter: "reach granted num_slots (pre @ slot # post, sh) \<Longrightarrow>
         slot_iter env slot sh = (slot', sh') \<Longrightarrow>
         reach granted num_slots (pre @ slot' # post, sh')"

text \<open>
  The keys a state still owes an account of: those in the queue and those in a slot that
  has not been counted, recycled or blacklisted.
\<close>

definition unaccounted :: "tab_state \<Rightarrow> bool" where
  "unaccounted s = (tab_status s \<notin> {COUNTED, RECYCLED, BLACKLISTED})"

definition pending_keys :: "tab_state list \<Rightarrow> shared \<Rightarrow> string list" where
  "pending_keys slots sh = queue sh @ map job_url (filter unaccounted slots)"

definition accounted :: "string list \<Rightarrow> tab_state list \<times> shared \<Rightarrow> bool" where
  "accounted granted st =
     (case st of (slots, sh) \<Rightarrow>
        distinct (permanently_failed sh @ pending_keys slots sh)
        \<and> set (permanently_failed sh @ pending_keys slots sh) \<subseteq> set granted
        \<and> blacklisted_urls sh \<subseteq> set (permanently_failed sh)
        \<and> moved sh + length (permanently_failed sh) + length (pending_keys slots sh)
            = length granted)"

subsection \<open>Inputs of the example runs\<close>

text \<open>\<^verbatim>\<open>NullCoordinator.batch_claim\<close> grants every URL.\<close>

definition null_batch_claim :: "string list \<Rightarrow> string list \<times> string list" where
  "null_batch_claim urls = (urls, [])"

text \<open>
  A browser in which slot 0 fails on every \<^verbatim>\<open>page.goto\<close> of \<^verbatim>\<open>tick_pending\<close>, while
  slot 1 opens its page in round 0, waits, and times out in round 4.
\<close>

definition failing_env :: "nat \<Rightarrow> nat \<Rightarrow> tick_env" where
  "failing_env r i =
     \<lparr>done_elsewhere = False,
      probe = (if i = 0 then Move ERROR ''boom''
               else if r = 0 then Move NAVIGATING ''goto fired''
               else if r = 4 then Move ERROR ''timeout''
               else Stay),
      verify = Goto_failed [], mark_done_raises = None\<rparr>"

text \<open>
  The file-backed coordinator with the default timeout, starting from an empty ledger at
  time 0, as the \<open>claimed\<close> of a run.
\<close>

definition fresh_batch_claim :: "string list \<Rightarrow> string list \<times> string list" where
  "fresh_batch_claim urls = fst (batch_claim 1800 0 urls ''top_down'' Map.empty)"

text \<open>A coordinator that reports every job as done by another worker.\<close>

definition elsewhere_env :: "nat \<Rightarrow> nat \<Rightarrow> tick_env" where
  "elsewhere_env r i =
     \<lparr>done_elsewhere = True, probe = Stay, verify = Goto_failed [], mark_done_raises = None\<rparr>"

text \<open>A network on which every request times out.\<close>

definition dead_network :: network where
  "dead_network tr = Timeout"

text \<open>A claim held by \<^verbatim>\<open>x\<close> since time 7 and last updated at time 100.\<close>

definition held_by_x :: entry where
  "held_by_x = \<lparr>status = Some STATUS_HELD, holder = Some ''x'', worker = None,
                 claimed_at = Some 7, updated_at = Some 100, error = None\<rparr>"

section \<open>Properties of the ledger\<close>

lemma status_distinct [simp]:
  "STATUS_HELD \<noteq> STATUS_DONE" "STATUS_HELD \<noteq> STATUS_FAILED" "STATUS_DONE \<noteq> STATUS_FAILED"
  "STATUS_DONE \<noteq> STATUS_HELD" "STATUS_FAILED \<noteq> STATUS_HELD" "STATUS_FAILED \<noteq> STATUS_DONE"
  by (simp_all add: STATUS_HELD_def STATUS_DONE_def STATUS_FAILED_def)

text \<open>
  C1, as amended. \<^verbatim>\<open>claim\<close> grants exactly when the key has no entry, or its entry is held
  and at least \<open>stale_timeout\<close> old (a missing \<^verbatim>\<open>updated_at\<close> counting as 0), or its entry
  carries none of the three statuses. A done entry and a failed entry are both denied. The
  \<^verbatim>\<open>/claim\<close> handler grants in the same cases, provided the url is not empty.
\<close>

theorem claim_grant_rule:
  "(fst (claim T now url h data) \<longleftrightarrow>
      data url = None \<or>
      (\<exists>e. data url = Some e \<and>
           (status e = Some STATUS_HELD \<and> real_of_int T \<le> now - updated_or_0 e
            \<or> status e \<notin> {Some STATUS_HELD, Some STATUS_DONE, Some STATUS_FAILED})))
   \<and> (ok (fst (server_claim T now url h w data)) \<longleftrightarrow>
        url \<noteq> [] \<and> fst (claim T now url h data))"
proof (cases "url = []")
  case True
  then show ?thesis
    by (auto simp: claim_def server_claim_def Let_def split: option.splits)
next
  case False
  then show ?thesis
    by (auto simp: claim_def server_claim_def is_stale_def Let_def split: option.splits)
qed

theorem claim_grant_rule_witness:
  "fst (claim 1800 2000 ''A'' ''y'' [''A'' \<mapsto> held_by_x])
   \<and> ok (fst (server_claim 1800 2000 ''A'' ''y'' ''w'' [''A'' \<mapsto> held_by_x]))"
  using claim_grant_rule [of 1800 2000 "''A''" "''y''" "[''A'' \<mapsto> held_by_x]" "''w''"]
  by (simp add: held_by_x_def updated_or_0_def)

text \<open>
  The claim as stated fails on a failed entry: after \<^verbatim>\<open>mark_failed\<close>, a later \<^verbatim>\<open>claim\<close> of
  the same key is denied by the file-backed coordinator and by the server alike. The two
  also differ on the empty key, which has no entry: the file-backed coordinator grants it,
  the server answers 400. And an entry without a status is none of the cases of the claim,
  yet it is granted.
\<close>

theorem claim_failed_counterexample:
  "\<not> fst (claim 1800 5000 ''A'' ''x'' (mark_failed 0 ''A'' ''boom'' Map.empty))
   \<and> \<not> ok (fst (server_claim 1800 5000 ''A'' ''x'' ''w''
                   (snd (server_failed 0 ''A'' ''boom'' ''w'' Map.empty))))
   \<and> fst (claim 1800 0 [] ''x'' Map.empty)
   \<and> fst (server_claim 1800 0 [] ''x'' ''w'' Map.empty) = \<lparr>http_code = 400, ok = False\<rparr>
   \<and> fst (claim 1800 0 ''A'' ''x'' [''A'' \<mapsto> empty_entry])"
  by (simp add: claim_def server_claim_def mark_failed_def server_failed_def get_or_empty_def
        empty_entry_def Let_def)

text \<open>
  \<^verbatim>\<open>is_available\<close> answers true for the same failed entry: the availability query lets a
  failed job be collected again, and \<^verbatim>\<open>claim\<close> then turns it down.
\<close>

lemma failed_available_not_claimable:
  "is_available 1800 5000 ''A'' (mark_failed 0 ''A'' ''boom'' Map.empty)
   \<and> \<not> fst (claim 1800 5000 ''A'' ''x'' (mark_failed 0 ''A'' ''boom'' Map.empty))"
  by (simp add: is_available_def claim_def mark_failed_def get_or_empty_def empty_entry_def Let_def)

lemma batch_loop_foldl:
  "batch_claim_loop T now h urls acc data =
     foldl (\<lambda>((granted, denied), s) k.
              case claim T now k h s of
                (True, s') \<Rightarrow> ((granted @ [k], denied), s')
              | (False, s') \<Rightarrow> ((granted, denied @ [k]), s'))
           (acc, data) urls"
proof (induction urls arbitrary: acc data)
  case Nil
  show ?case by (cases acc) simp
next
  case (Cons u us)
  obtain g d where acc: "acc = (g, d)" by (cases acc)
  obtain r s' where c: "claim T now u h data = (r, s')" by (cases "claim T now u h data")
  show ?case using Cons.IH by (cases r) (simp_all add: acc c)
qed

lemma server_decision:
  "url \<noteq> [] \<Longrightarrow>
   claim_request T now h w url data =
     (if (case data url of None \<Rightarrow> True
          | Some e \<Rightarrow> if status e = Some STATUS_DONE \<or> status e = Some STATUS_FAILED then False
                      else if status e = Some STATUS_HELD \<and> \<not> is_stale T now e then False
                      else True)
      then (True, data(url \<mapsto> held_entry now h w (data url)))
      else (False, data))"
  by (simp add: claim_request_def server_claim_def Let_def split: option.splits)

lemma server_loop_foldl:
  "[] \<notin> set urls \<Longrightarrow>
   server_batch_loop T now h w urls acc data =
     foldl (\<lambda>((granted, denied), s) k.
              case claim_request T now h w k s of
                (True, s') \<Rightarrow> ((granted @ [k], denied), s')
              | (False, s') \<Rightarrow> ((granted, denied @ [k]), s'))
           (acc, data) urls"
proof (induction urls arbitrary: acc data)
  case Nil
  show ?case by (cases acc) simp
next
  case (Cons u us)
  obtain g d where acc: "acc = (g, d)" by (cases acc)
  from Cons.prems have u: "u \<noteq> []" and us: "[] \<notin> set us" by auto
  let ?b = "(case data u of None \<Rightarrow> True
          | Some e \<Rightarrow> if status e = Some STATUS_DONE \<or> status e = Some STATUS_FAILED then False
                      else if status e = Some STATUS_HELD \<and> \<not> is_stale T now e then False
                      else True)"
  show ?case
  proof (cases ?b)
    case True
    then show ?thesis
      using Cons.IH[OF us, of "(g @ [u], d)" "data(u \<mapsto> held_entry now h w (data u))"]
      by (simp add: acc server_decision[OF u] Let_def del: fun_upd_apply)
  next
    case False
    then show ?thesis
      using Cons.IH[OF us, of "(g, d @ [u])" data]
      by (simp add: acc server_decision[OF u] Let_def del: fun_upd_apply)
  qed
qed

text \<open>
  Where the two can be compared they agree. At one instant and from one starting ledger,
  \<^verbatim>\<open>batch_claim\<close> of the file-backed coordinator returns the partition and the ledger of
  sequential \<^verbatim>\<open>claim\<close> calls for every list of keys, and the \<^verbatim>\<open>/batch_claim\<close> handler
  returns those of sequential \<^verbatim>\<open>/claim\<close> requests when no key of the list is empty.
\<close>

lemma batch_claim_sequential:
  "batch_claim T now urls h data = sequential_claims (\<lambda>k. claim T now k h) urls data
   \<and> ([] \<notin> set urls \<longrightarrow>
        server_batch_claim T now urls h w data =
          sequential_claims (claim_request T now h w) urls data)"
  by (cases urls)
     (simp_all add: batch_claim_def server_batch_claim_def sequential_claims_def batch_loop_foldl
        server_loop_foldl del: batch_claim_loop.simps server_batch_loop.simps)

text \<open>
  C2. \<^verbatim>\<open>batch_claim\<close> is to return the partition of sequential \<^verbatim>\<open>claim\<close> calls for every
  list of keys. The \<^verbatim>\<open>/batch_claim\<close> handler does not on the list that holds the empty
  key: it lacks the \<^verbatim>\<open>if not url\<close> check of \<^verbatim>\<open>/claim\<close>, grants the empty key and writes
  a held entry for it, while the \<^verbatim>\<open>/claim\<close> request for the same key is answered with
  status 400 and \<^verbatim>\<open>ok\<close> false and writes nothing.
\<close>

theorem batch_claim_empty_key_divergence:
  "fst (server_batch_claim 1800 0 [[]] ''x'' ''w'' Map.empty) = ([[]], [])
   \<and> snd (server_batch_claim 1800 0 [[]] ''x'' ''w'' Map.empty) []
       = Some \<lparr>status = Some STATUS_HELD, holder = Some ''x'', worker = Some ''w'',
               claimed_at = Some 0, updated_at = Some 0, error = None\<rparr>
   \<and> server_claim 1800 0 [] ''x'' ''w'' Map.empty = (\<lparr>http_code = 400, ok = False\<rparr>, Map.empty)
   \<and> sequential_claims (claim_request 1800 0 ''x'' ''w'') [[]] Map.empty
       = (([], [[]]), Map.empty)"
  by (simp add: server_batch_claim_def sequential_claims_def claim_request_def server_claim_def
        held_entry_def claimed_or_def)

text \<open>
  C3. From the empty ledger, \<^verbatim>\<open>claim("A", "x")\<close> at time \<open>t0\<close> is granted; \<^verbatim>\<open>claim("A", "y")\<close>
  at a time \<open>t1\<close> less than \<open>stale_timeout\<close> after \<open>t0\<close> is denied and changes nothing;
  \<^verbatim>\<open>claim("A", "y")\<close> at a time \<open>t2\<close> at least \<open>stale_timeout\<close> after \<open>t0\<close> is granted and
  leaves the entry held by \<^verbatim>\<open>y\<close>. The same holds of the \<^verbatim>\<open>/claim\<close> handler.
\<close>

theorem stale_reclaim_scenario:
  assumes young: "t1 - t0 < real_of_int T" and old: "real_of_int T \<le> t2 - t0"
  shows "(let (g0, d0) = claim T t0 ''A'' ''x'' Map.empty;
              (g1, d1) = claim T t1 ''A'' ''y'' d0;
              (g2, d2) = claim T t2 ''A'' ''y'' d1
          in g0 \<and> \<not> g1 \<and> d1 = d0 \<and> g2
             \<and> map_option holder (d2 ''A'') = Some (Some ''y'')
             \<and> map_option status (d2 ''A'') = Some (Some STATUS_HELD))
         \<and> (let (r0, d0) = server_claim T t0 ''A'' ''x'' ''w1'' Map.empty;
                 (r1, d1) = server_claim T t1 ''A'' ''y'' ''w2'' d0;
                 (r2, d2) = server_claim T t2 ''A'' ''y'' ''w2'' d1
             in ok r0 \<and> \<not> ok r1 \<and> d1 = d0 \<and> ok r2
                \<and> map_option holder (d2 ''A'') = Some (Some ''y'')
                \<and> map_option status (d2 ''A'') = Some (Some STATUS_HELD))"
  using young old
  by (simp add: claim_def server_claim_def is_stale_def held_entry_def updated_or_0_def
        claimed_or_def Let_def)

theorem stale_reclaim_scenario_witness:
  "(let (g0, d0) = claim 1800 0 ''A'' ''x'' Map.empty;
        (g1, d1) = claim 1800 60 ''A'' ''y'' d0;
        (g2, d2) = claim 1800 1800 ''A'' ''y'' d1
    in g0 \<and> \<not> g1 \<and> d1 = d0 \<and> g2
       \<and> map_option holder (d2 ''A'') = Some (Some ''y'')
       \<and> map_option status (d2 ''A'') = Some (Some STATUS_HELD))
   \<and> (let (r0, d0) = server_claim 1800 0 ''A'' ''x'' ''w1'' Map.empty;
           (r1, d1) = server_claim 1800 60 ''A'' ''y'' ''w2'' d0;
           (r2, d2) = server_claim 1800 1800 ''A'' ''y'' ''w2'' d1
       in ok r0 \<and> \<not> ok r1 \<and> d1 = d0 \<and> ok r2
          \<and> map_option holder (d2 ''A'') = Some (Some ''y'')
          \<and> map_option status (d2 ''A'') = Some (Some STATUS_HELD))"
  using stale_reclaim_scenario [of 60 0 1800 1800] by simp

text \<open>
  C4, as amended. When a held entry with a \<^verbatim>\<open>claimed_at\<close> and an \<^verbatim>\<open>updated_at\<close> is at least
  \<open>stale_timeout\<close> old, \<^verbatim>\<open>claim\<close> is granted and replaces the entry by one with exactly the
  keys status, holder, claimed_at and updated_at (the server adds worker): \<^verbatim>\<open>claimed_at\<close> is
  the previous one, \<^verbatim>\<open>updated_at\<close> is the current time, every other key of the ledger is
  untouched. The current time is strictly later than the previous \<^verbatim>\<open>updated_at\<close> when
  \<open>stale_timeout\<close> is positive.
\<close>

theorem reclaim_frame:
  assumes ent: "data url = Some e" and held: "status e = Some STATUS_HELD"
    and c: "claimed_at e = Some c" and u: "updated_at e = Some u"
    and stale: "real_of_int T \<le> now - u"
  shows "claim T now url h data =
           (True, data(url \<mapsto> \<lparr>status = Some STATUS_HELD, holder = Some h, worker = None,
                                 claimed_at = Some c, updated_at = Some now, error = None\<rparr>))
         \<and> (url \<noteq> [] \<longrightarrow>
              server_claim T now url h w data =
                (\<lparr>http_code = 200, ok = True\<rparr>,
                 data(url \<mapsto> \<lparr>status = Some STATUS_HELD, holder = Some h, worker = Some w,
                                claimed_at = Some c, updated_at = Some now, error = None\<rparr>)))
         \<and> (0 < T \<longrightarrow> u < now)"
  using assms
  by (simp add: claim_def server_claim_def is_stale_def held_entry_def updated_or_0_def
        claimed_or_def Let_def)

theorem reclaim_frame_witness:
  "claim 1800 2000 ''A'' ''y'' [''A'' \<mapsto> held_by_x] =
     (True, [''A'' \<mapsto> \<lparr>status = Some STATUS_HELD, holder = Some ''y'', worker = None,
                         claimed_at = Some 7, updated_at = Some 2000, error = None\<rparr>])
   \<and> server_claim 1800 2000 ''A'' ''y'' ''w'' [''A'' \<mapsto> held_by_x] =
     (\<lparr>http_code = 200, ok = True\<rparr>,
      [''A'' \<mapsto> \<lparr>status = Some STATUS_HELD, holder = Some ''y'', worker = Some ''w'',
                  claimed_at = Some 7, updated_at = Some 2000, error = None\<rparr>])
   \<and> (100::real) < 2000"
  using reclaim_frame [of "[''A'' \<mapsto> held_by_x]" "''A''" held_by_x 7 100 1800 2000 "''y''" "''w''"]
  by (simp add: held_by_x_def)

text \<open>
  The claim as stated fails when \<open>stale_timeout\<close> is 0: a held entry is stale at once, and a
  re-claim at the instant of its last update is granted without advancing \<^verbatim>\<open>updated_at\<close>.
\<close>

theorem reclaim_zero_timeout_counterexample:
  "map_option status (snd (claim 0 100 ''A'' ''x'' Map.empty) ''A'') = Some (Some STATUS_HELD)
   \<and> fst (claim 0 100 ''A'' ''y'' (snd (claim 0 100 ''A'' ''x'' Map.empty)))
   \<and> map_option updated_at
        (snd (claim 0 100 ''A'' ''y'' (snd (claim 0 100 ''A'' ''x'' Map.empty))) ''A'')
       = map_option updated_at (snd (claim 0 100 ''A'' ''x'' Map.empty) ''A'')"
  by (simp add: claim_def updated_or_0_def claimed_or_def Let_def)

text \<open>
  C5, as amended. The entry after a second \<^verbatim>\<open>mark_done\<close> of a key is the entry after the
  first with \<^verbatim>\<open>updated_at\<close> set to the time of the second call, and so it is for a second
  \<^verbatim>\<open>mark_failed\<close> with the same reason; the ledger after both calls is the ledger that the
  later call alone leaves. A key without an entry gets one from either call. The
  \<^verbatim>\<open>/done\<close> and \<^verbatim>\<open>/failed\<close> handlers repeat in the same way.
\<close>

theorem mark_terminal_idempotent:
  "mark_done t2 url (mark_done t1 url data) = mark_done t2 url data
   \<and> mark_failed t2 url reason (mark_failed t1 url reason data) = mark_failed t2 url reason data
   \<and> mark_done t2 url (mark_done t1 url data) url
       = map_option (\<lambda>e. e\<lparr>updated_at := Some t2\<rparr>) (mark_done t1 url data url)
   \<and> mark_failed t2 url reason (mark_failed t1 url reason data) url
       = map_option (\<lambda>e. e\<lparr>updated_at := Some t2\<rparr>) (mark_failed t1 url reason data url)
   \<and> (data url = None \<longrightarrow>
        mark_done t1 url data url
          = Some (empty_entry\<lparr>status := Some STATUS_DONE, updated_at := Some t1\<rparr>)
        \<and> mark_failed t1 url reason data url
            = Some (empty_entry\<lparr>status := Some STATUS_FAILED, updated_at := Some t1,
                                 error := Some (take 200 reason)\<rparr>))
   \<and> snd (server_done t2 url w (snd (server_done t1 url w data))) = snd (server_done t2 url w data)
   \<and> snd (server_failed t2 url reason w (snd (server_failed t1 url reason w data)))
       = snd (server_failed t2 url reason w data)"
  by (simp add: mark_done_def update_status_def mark_failed_def get_or_empty_def
        server_done_def server_failed_def Let_def)

theorem mark_terminal_idempotent_witness:
  "mark_done 2 ''A'' (mark_done 1 ''A'' Map.empty) = mark_done 2 ''A'' Map.empty
   \<and> mark_failed 2 ''A'' ''boom'' (mark_failed 1 ''A'' ''boom'' Map.empty)
       = mark_failed 2 ''A'' ''boom'' Map.empty
   \<and> mark_done 1 ''A'' Map.empty ''A''
       = Some (empty_entry\<lparr>status := Some STATUS_DONE, updated_at := Some 1\<rparr>)
   \<and> mark_failed 1 ''A'' ''boom'' Map.empty ''A''
       = Some (empty_entry\<lparr>status := Some STATUS_FAILED, updated_at := Some 1,
                            error := Some ''boom''\<rparr>)"
  using mark_terminal_idempotent [of 2 "''A''" 1 Map.empty "''boom''" "''w''"] by simp

text \<open>
  The claim as stated fails as soon as the clock moves between the two calls: the entry
  after the second call carries the later \<^verbatim>\<open>updated_at\<close>.
\<close>

theorem mark_twice_counterexample:
  "mark_done 2 ''A'' (mark_done 1 ''A'' Map.empty) ''A'' \<noteq> mark_done 1 ''A'' Map.empty ''A''
   \<and> mark_failed 2 ''A'' ''boom'' (mark_failed 1 ''A'' ''boom'' Map.empty) ''A''
       \<noteq> mark_failed 1 ''A'' ''boom'' Map.empty ''A''"
  by (simp add: mark_done_def update_status_def mark_failed_def get_or_empty_def empty_entry_def)

text \<open>
  C10. \<^verbatim>\<open>mark_failed\<close> stores the first 200 characters of the error string, at most 200
  characters, in the entry's \<^verbatim>\<open>error\<close> field, for every key. The \<^verbatim>\<open>/failed\<close> handler
  stores the same for every request it accepts; the one request it turns down, the request
  without a url, stores nothing and leaves the ledger as it was.
\<close>

theorem mark_failed_truncates:
  "map_option error (mark_failed now url err data url) = Some (Some (take 200 err))
   \<and> length (take 200 err) \<le> 200
   \<and> (ok (fst (server_failed now url err w data)) \<longleftrightarrow> url \<noteq> [])
   \<and> (if ok (fst (server_failed now url err w data))
       then map_option error (snd (server_failed now url err w data) url)
              = Some (Some (take 200 err))
       else snd (server_failed now url err w data) = data)"
  by (simp add: mark_failed_def server_failed_def Let_def)

theorem mark_failed_truncates_witness:
  "map_option error (mark_failed 5 ''A'' (replicate 250 CHR ''e'') Map.empty ''A'')
     = Some (Some (replicate 200 CHR ''e''))
   \<and> ok (fst (server_failed 5 ''A'' (replicate 250 CHR ''e'') ''w'' Map.empty))
   \<and> map_option error (snd (server_failed 5 ''A'' (replicate 250 CHR ''e'') ''w'' Map.empty) ''A'')
     = Some (Some (replicate 200 CHR ''e''))"
  using mark_failed_truncates [of 5 "''A''" "replicate 250 CHR ''e''" Map.empty "''w''"] by simp

section \<open>Properties of the HTTP client\<close>

text \<open>
  C6. When every request ends in a connection error or a timeout, \<^verbatim>\<open>claim\<close> sends its
  request, sleeps the fixed backoff once, sends the request once more and returns false;
  \<^verbatim>\<open>is_available\<close> does the same and returns true. Neither raises. Every operation built
  on \<^verbatim>\<open>_post\<close> or \<^verbatim>\<open>_get\<close> makes the same two attempts and gets its default.
\<close>

theorem unreachable_server_defaults:
  assumes down: "\<forall>tr. net tr = ConnectionError \<or> net tr = Timeout"
  shows "http_claim net tr = (Inr False, tr @ [Post ''/claim'', Sleep RETRY_BACKOFF, Post ''/claim''])
         \<and> http_is_available net tr
             = (Inr True, tr @ [Get ''/available'', Sleep RETRY_BACKOFF, Get ''/available''])
         \<and> http_post net path dflt tr = (dflt, tr @ [Post path, Sleep RETRY_BACKOFF, Post path])
         \<and> http_get net path dflt tr = (dflt, tr @ [Get path, Sleep RETRY_BACKOFF, Get path])"
proof -
  have p: "request_attempts net req d [0, 1] tr = (d, tr @ [req, Sleep RETRY_BACKOFF, req])"
    for req d
    using down [rule_format, of tr] down [rule_format, of "tr @ [req, Sleep RETRY_BACKOFF]"]
    by auto
  show ?thesis
    unfolding http_claim_def http_is_available_def http_post_def http_get_def p by simp
qed

theorem unreachable_server_defaults_witness:
  "(\<forall>tr. dead_network tr = ConnectionError \<or> dead_network tr = Timeout)
   \<and> http_claim dead_network [] = (Inr False, [Post ''/claim'', Sleep 2, Post ''/claim''])
   \<and> http_is_available dead_network []
       = (Inr True, [Get ''/available'', Sleep 2, Get ''/available''])"
proof -
  have d: "\<forall>tr. dead_network tr = ConnectionError \<or> dead_network tr = Timeout"
    by (simp add: dead_network_def)
  from unreachable_server_defaults [OF d, of "[]"] d show ?thesis
    by (simp add: RETRY_BACKOFF_def)
qed

section \<open>Properties of the slots and the orchestrator\<close>

lemma transition_fields [simp]:
  "job_url (transition t m s) = job_url s" "tab_status (transition t m s) = t"
  by (simp_all add: transition_def Let_def)

text \<open>
  C9. Whatever the confirmation query does (it lands away from the job page, it lands on
  the job page, it raises), and also when the first \<^verbatim>\<open>mark_done\<close> raises,
  \<^verbatim>\<open>tick_verifying\<close> reports \<^verbatim>\<open>mark_done\<close> for the job and moves the slot to \<^verbatim>\<open>DONE\<close>,
  never to \<^verbatim>\<open>ERROR\<close> nor back to an earlier state; no error is recorded. A tick of a
  slot in \<^verbatim>\<open>VERIFYING\<close> is this function.
\<close>

theorem verifying_always_done:
  "tab_status (fst (tick_verifying g raised tab calls)) = DONE
   \<and> fst (snd (tick_verifying g raised tab calls)) = calls @ [Mark_done (job_url tab)]
   \<and> job_url (fst (tick_verifying g raised tab calls)) = job_url tab
   \<and> error_msg (fst (tick_verifying g raised tab calls)) = error_msg tab
   \<and> error_history (fst (tick_verifying g raised tab calls)) = error_history tab
   \<and> consecutive_errors (fst (tick_verifying g raised tab calls)) = 0
   \<and> (tab_status tab = VERIFYING \<longrightarrow>
        tab_status (fst (tick_slot_fast env tab calls)) = DONE
        \<and> snd (tick_slot_fast env tab calls) = calls @ [Mark_done (job_url tab)])"
  by (simp add: tick_verifying_def tick_slot_fast_def transition_def Let_def split: option.splits)

theorem verifying_always_done_witness:
  "tab_status ((new_tab ''J'')\<lparr>tab_status := VERIFYING\<rparr>) = VERIFYING
   \<and> tab_status (fst (tick_slot_fast (failing_env 0 0)
                         ((new_tab ''J'')\<lparr>tab_status := VERIFYING\<rparr>) [])) = DONE
   \<and> snd (tick_slot_fast (failing_env 0 0) ((new_tab ''J'')\<lparr>tab_status := VERIFYING\<rparr>) [])
       = [Mark_done ''J'']
   \<and> tab_status (fst (tick_verifying (Landed ''https://app/ws/annotate/job/J'') None
                         ((new_tab ''J'')\<lparr>tab_status := VERIFYING\<rparr>) [])) = DONE"
  using verifying_always_done [of "Landed ''https://app/ws/annotate/job/J''" None
          "(new_tab ''J'')\<lparr>tab_status := VERIFYING\<rparr>" "[]" "failing_env 0 0"]
  by (simp add: new_tab_def)

lemma pending_keys_split:
  "pending_keys (pre @ s # post) sh =
     queue sh @ map job_url (filter unaccounted pre)
       @ (if unaccounted s then [job_url s] else []) @ map job_url (filter unaccounted post)"
  by (simp add: pending_keys_def)

lemma pending_keys_start: "pending_keys (map new_tab xs) (init_shared q) = q @ xs"
  by (induction xs) (simp_all add: pending_keys_def init_shared_def new_tab_def unaccounted_def)

lemma accounted_start:
  assumes "distinct granted"
  shows "accounted granted (init_pipeline granted num_slots)"
proof -
  define k where "k = nat (min num_slots (int (length granted)))"
  have d: "distinct (drop k granted @ take k granted)"
    using assms by (metis append_take_drop_id distinct_append inf_commute)
  have s: "set (drop k granted @ take k granted) \<subseteq> set granted"
    by (metis append_take_drop_id set_append sup_commute subset_refl)
  have l: "length (drop k granted @ take k granted) = length granted"
    by simp
  have i: "init_pipeline granted num_slots = (map new_tab (take k granted), init_shared (drop k granted))"
    by (simp add: init_pipeline_def k_def Let_def)
  have f: "permanently_failed (init_shared q) = []" "moved (init_shared q) = 0"
    "blacklisted_urls (init_shared q) = {}" for q
    by (simp_all add: init_shared_def)
  show ?thesis
    unfolding accounted_def i prod.case pending_keys_start f using d s l by simp
qed

lemma recycle_accounted:
  assumes a: "accounted granted (pre @ s # post, sh)" and r: "recycle s sh = (s', sh')"
  shows "accounted granted (pre @ s' # post, sh')"
proof -
  consider (finish) "tab_status s = DONE"
    | (black) "tab_status s = ERROR" "BLACKLIST_THRESHOLD \<le> consecutive_errors s"
    | (retry) "tab_status s = ERROR" "\<not> BLACKLIST_THRESHOLD \<le> consecutive_errors s"
        "(case retry_tracker sh (job_url s) of None \<Rightarrow> 0 | Some n \<Rightarrow> n) < MAX_CARD_RETRIES"
    | (giveup) "tab_status s = ERROR" "\<not> BLACKLIST_THRESHOLD \<le> consecutive_errors s"
        "\<not> (case retry_tracker sh (job_url s) of None \<Rightarrow> 0 | Some n \<Rightarrow> n) < MAX_CARD_RETRIES"
    | (other) "tab_status s \<noteq> DONE" "tab_status s \<noteq> ERROR"
    by blast
  then show ?thesis
  proof cases
    case finish
    with r have "tab_status s' = COUNTED" "sh' = sh\<lparr>moved := moved sh + 1\<rparr>"
      by (auto simp: recycle_def transition_def Let_def)
    with a finish show ?thesis
      by (simp add: accounted_def pending_keys_split unaccounted_def)
  next
    case black
    with r have "tab_status s' = BLACKLISTED" "job_url s' = job_url s"
      "permanently_failed sh' = permanently_failed sh @ [job_url s]"
      "blacklisted_urls sh' = insert (job_url s) (blacklisted_urls sh)"
      "queue sh' = queue sh" "moved sh' = moved sh"
      by (auto simp: recycle_def Let_def)
    with a black show ?thesis
      by (auto simp: accounted_def pending_keys_split unaccounted_def)
  next
    case retry
    with r have "tab_status s' = RECYCLED" "job_url s' = job_url s"
      "permanently_failed sh' = permanently_failed sh"
      "blacklisted_urls sh' = blacklisted_urls sh"
      "queue sh' = queue sh @ [job_url s]" "moved sh' = moved sh"
      by (auto simp: recycle_def Let_def)
    with a retry show ?thesis
      by (auto simp: accounted_def pending_keys_split unaccounted_def)
  next
    case giveup
    with r have "tab_status s' = RECYCLED" "job_url s' = job_url s"
      "permanently_failed sh' = permanently_failed sh @ [job_url s]"
      "blacklisted_urls sh' = blacklisted_urls sh"
      "queue sh' = queue sh" "moved sh' = moved sh"
      by (auto simp: recycle_def Let_def)
    with a giveup show ?thesis
      by (auto simp: accounted_def pending_keys_split unaccounted_def)
  next
    case other
    with r have "s' = s" "sh' = sh" by (auto simp: recycle_def)
    with a show ?thesis by simp
  qed
qed

lemma assign_accounted:
  assumes a: "accounted granted (pre @ s # post, sh)" and n: "assign_next s sh = (s', sh')"
  shows "accounted granted (pre @ s' # post, sh')"
proof (cases "tab_status s \<in> {COUNTED, RECYCLED, BLACKLISTED} \<and> queue sh \<noteq> []")
  case False
  with n have "s' = s" "sh' = sh" by (auto simp: assign_next_def split: list.splits)
  with a show ?thesis by simp
next
  case True
  then obtain u rest where q: "queue sh = u # rest" by (cases "queue sh") auto
  from a q have "u \<notin> set (permanently_failed sh)"
    by (auto simp: accounted_def pending_keys_def)
  with a have nb: "u \<notin> blacklisted_urls sh" by (auto simp: accounted_def)
  from True q nb n have e: "tab_status s' = PENDING" "job_url s' = u"
    "permanently_failed sh' = permanently_failed sh" "blacklisted_urls sh' = blacklisted_urls sh"
    "queue sh' = rest" "moved sh' = moved sh"
    by (auto simp: assign_next_def reset_for_def Let_def split: if_splits)
  from True have i: "\<not> unaccounted s" by (auto simp: unaccounted_def)
  from e have j: "unaccounted s'" by (simp add: unaccounted_def)
  from a show ?thesis
    by (auto simp: accounted_def pending_keys_split i j e q)
qed

lemma tick_transitions_live:
  "t \<in> set (tick_transitions st) \<Longrightarrow>
     t \<notin> {COUNTED, RECYCLED, BLACKLISTED} \<and> st \<notin> {COUNTED, RECYCLED, BLACKLISTED}"
  by (cases st) auto

lemma driver_tick_keeps:
  "job_url (driver_tick d t) = job_url t \<and> (unaccounted (driver_tick d t) \<longleftrightarrow> unaccounted t)"
proof (cases d)
  case Stay
  then show ?thesis by (simp add: driver_tick_def)
next
  case (Move target message)
  then show ?thesis
    using tick_transitions_live [of target "tab_status t"]
    by (simp add: driver_tick_def unaccounted_def)
qed

lemma tick_keeps:
  assumes "tick_slot_fast env t calls = (t', calls')"
  shows "job_url t' = job_url t \<and> (unaccounted t' \<longleftrightarrow> unaccounted t)"
proof -
  consider (guard) "tab_status t = PENDING \<and> done_elsewhere env"
    | (verifying) "\<not> (tab_status t = PENDING \<and> done_elsewhere env)" "tab_status t = VERIFYING"
    | (driver) "\<not> (tab_status t = PENDING \<and> done_elsewhere env)" "tab_status t \<noteq> VERIFYING"
    by blast
  then show ?thesis
  proof cases
    case guard
    with assms have "t' = transition DONE ''done by another worker'' t"
      by (simp add: tick_slot_fast_def)
    with guard show ?thesis by (simp add: unaccounted_def)
  next
    case verifying
    with assms have "\<exists>m. t' = transition DONE m t"
      by (auto simp: tick_slot_fast_def tick_verifying_def Let_def split: option.splits)
    with verifying show ?thesis by (auto simp: unaccounted_def)
  next
    case driver
    with assms have "t' = driver_tick (probe env) t"
      by (auto simp: tick_slot_fast_def)
    then show ?thesis by (simp add: driver_tick_keeps)
  qed
qed

lemma slot_iter_accounted:
  assumes a: "accounted granted (pre @ s # post, sh)" and i: "slot_iter env s sh = (s', sh')"
  shows "accounted granted (pre @ s' # post, sh')"
proof (cases "tab_status s \<in> {DONE, ERROR, BLACKLISTED}")
  case True
  obtain s1 sh1 where r: "recycle s sh = (s1, sh1)" by (cases "recycle s sh")
  from True i r have n: "assign_next s1 sh1 = (s', sh')" by (simp add: slot_iter_def)
  from recycle_accounted [OF a r] n show ?thesis by (rule assign_accounted)
next
  case False
  obtain t c where t: "tick_slot_fast env (s\<lparr>tick_count := tick_count s + 1\<rparr>) (coord_calls sh) = (t, c)"
    by (cases "tick_slot_fast env (s\<lparr>tick_count := tick_count s + 1\<rparr>) (coord_calls sh)")
  from False i t have e: "s' = t" "sh' = sh\<lparr>coord_calls := c\<rparr>" by (simp_all add: slot_iter_def)
  from tick_keeps [OF t] have k: "job_url t = job_url s" "unaccounted t \<longleftrightarrow> unaccounted s"
    by (simp_all add: unaccounted_def)
  have pk: "pending_keys (pre @ s' # post) sh' = pending_keys (pre @ s # post) sh"
    by (simp add: pending_keys_split k e)
  have f: "permanently_failed sh' = permanently_failed sh" "moved sh' = moved sh"
    "blacklisted_urls sh' = blacklisted_urls sh"
    by (simp_all add: e)
  from a show ?thesis unfolding accounted_def prod.case pk f .
qed

lemma reach_accounted:
  assumes "reach granted num_slots st" and "distinct granted"
  shows "accounted granted st"
  using assms
proof (induction rule: reach.induct)
  case (start granted num_slots)
  then show ?case by (rule accounted_start)
next
  case (iter granted num_slots pre slot post sh env slot' sh')
  then show ?case using slot_iter_accounted by blast
qed

text \<open>The rounds of the loop stay inside the relation.\<close>

lemma round_slots_reach:
  assumes "reach granted n (pre @ slots, sh)" and "round_slots env i slots sh = (slots', sh')"
  shows "reach granted n (pre @ slots', sh')"
  using assms
proof (induction slots arbitrary: pre i sh slots' sh')
  case Nil
  then show ?case by simp
next
  case (Cons s rest)
  obtain s1 sh1 where it: "slot_iter (env i) s sh = (s1, sh1)"
    by (cases "slot_iter (env i) s sh")
  obtain rest' sh2 where rd: "round_slots env (Suc i) rest sh1 = (rest', sh2)"
    by (cases "round_slots env (Suc i) rest sh1")
  from Cons.prems(2) it rd have e: "slots' = s1 # rest'" "sh' = sh2" by simp_all
  from Cons.prems(1) it have "reach granted n (pre @ s1 # rest, sh1)" by (rule reach.iter)
  then have "reach granted n ((pre @ [s1]) @ rest, sh1)" by simp
  from Cons.IH [OF this rd] show ?case by (simp add: e)
qed

lemma run_loop_reach:
  assumes "reach granted n (slots, sh)" and "run_loop env fuel r slots sh = Some (slots', sh')"
  shows "reach granted n (slots', sh') \<and> finished slots' sh'"
  using assms
proof (induction fuel arbitrary: r slots sh)
  case 0
  then show ?case by simp
next
  case (Suc fuel)
  show ?case
  proof (cases "finished slots sh")
    case True
    with Suc.prems show ?thesis by simp
  next
    case False
    obtain s1 sh1 where rd: "round_slots (env r) 0 slots sh = (s1, sh1)"
      by (cases "round_slots (env r) 0 slots sh")
    from Suc.prems(1) have "reach granted n ([] @ slots, sh)" by simp
    from round_slots_reach [OF this rd] have rc: "reach granted n (s1, sh1)" by simp
    from Suc.prems(2) False rd have "run_loop env fuel (Suc r) s1 sh1 = Some (slots', sh')" by simp
    from Suc.IH [OF rc this] show ?thesis .
  qed
qed

lemma final_accounting_count:
  "moved (final_accounting slots sh) + length (permanently_failed (final_accounting slots sh))
     = moved sh + length (permanently_failed sh)
       + length (filter (\<lambda>s. tab_status s = DONE \<or> tab_status s = ERROR) slots)"
  by (induction slots arbitrary: sh) simp_all

lemma finished_pending:
  assumes "finished slots sh"
  shows "length (pending_keys slots sh)
           = length (filter (\<lambda>s. tab_status s = DONE \<or> tab_status s = ERROR) slots)"
proof -
  from assms have q: "queue sh = []" and na: "\<forall>s\<in>set slots. \<not> active s"
    by (simp_all add: finished_def filter_empty_conv)
  have "filter unaccounted slots = filter (\<lambda>s. tab_status s = DONE \<or> tab_status s = ERROR) slots"
  proof (rule filter_cong [OF refl])
    fix s assume "s \<in> set slots"
    with na have "\<not> active s" by blast
    then show "unaccounted s = (tab_status s = DONE \<or> tab_status s = ERROR)"
      by (cases "tab_status s") (simp_all add: active_def unaccounted_def)
  qed
  then show ?thesis by (simp add: pending_keys_def q)
qed

lemma run_pipeline_total:
  assumes d: "distinct granted" and c: "claimed job_urls = (granted, denied)"
    and r: "run_pipeline claimed env fuel job_urls n = Some ((m, pf), slots, calls)"
  shows "m + length pf = length granted"
proof (cases "granted = []")
  case True
  with r c show ?thesis by (simp add: run_pipeline_def)
next
  case False
  obtain s0 sh0 where i: "init_pipeline granted n = (s0, sh0)" by (cases "init_pipeline granted n")
  from False r c i obtain s1 sh1 where l: "run_loop env fuel 0 s0 sh0 = Some (s1, sh1)"
    and m: "m = moved (final_accounting s1 sh1)"
    and pf: "pf = permanently_failed (final_accounting s1 sh1)"
    by (auto simp: run_pipeline_def Let_def split: option.splits)
  have "reach granted n (s0, sh0)" using reach.start [of granted n] by (simp add: i)
  from run_loop_reach [OF this l] have rc: "reach granted n (s1, sh1)" and f: "finished s1 sh1"
    by simp_all
  from reach_accounted [OF rc d]
  have "moved sh1 + length (permanently_failed sh1) + length (pending_keys s1 sh1) = length granted"
    by (simp add: accounted_def)
  then show ?thesis
    by (simp add: m pf final_accounting_count finished_pending [OF f])
qed

lemma fresh_claim_one: "fresh_batch_claim [''A''] = ([''A''], [])"
  by (simp add: fresh_batch_claim_def batch_claim_def claim_def)

lemma elsewhere_run:
  "run_pipeline fresh_batch_claim elsewhere_env 3 [''A''] 1
     = Some ((1, []), [(new_tab ''A'')\<lparr>tab_status := DONE, tick_count := 1\<rparr>], [])"
  unfolding run_pipeline_def fresh_claim_one by code_simp

text \<open>
  Inside the loop the threshold works. When the loop recycles a slot in \<^verbatim>\<open>ERROR\<close> whose
  consecutive-error count is at least \<^verbatim>\<open>BLACKLIST_THRESHOLD\<close>, the slot becomes
  \<^verbatim>\<open>BLACKLISTED\<close>, its URL joins the blacklist and the permanently failed list,
  \<^verbatim>\<open>mark_failed\<close> is reported, and the iteration pushes nothing onto the queue. No
  iteration takes a URL off the blacklist, and with distinct granted keys no blacklisted URL
  is ever in the queue or in a slot awaiting its account. A transition to \<^verbatim>\<open>DONE\<close> resets
  the count to 0 and the slot is recycled as counted, with no failure recorded.
\<close>

lemma blacklist_on_recycle:
  "(tab_status slot = ERROR \<and> BLACKLIST_THRESHOLD \<le> consecutive_errors slot \<longrightarrow>
      recycle slot sh =
        (slot\<lparr>tab_status := BLACKLISTED\<rparr>,
         sh\<lparr>blacklisted_urls := insert (job_url slot) (blacklisted_urls sh),
            permanently_failed := permanently_failed sh @ [job_url slot],
            coord_calls := coord_calls sh
               @ [Mark_failed (job_url slot) (''blacklisted: '' @ error_msg slot)]\<rparr>)
      \<and> (queue (snd (slot_iter env slot sh)) = queue sh
           \<or> queue (snd (slot_iter env slot sh)) = tl (queue sh)))
   \<and> blacklisted_urls sh \<subseteq> blacklisted_urls (snd (slot_iter env slot sh))
   \<and> (distinct granted \<and> reach granted num_slots (slots, sh') \<longrightarrow>
        set (pending_keys slots sh') \<inter> blacklisted_urls sh' = {})
   \<and> consecutive_errors (transition DONE message slot) = 0
   \<and> tab_status (fst (recycle (transition DONE message slot) sh)) = COUNTED
   \<and> snd (recycle (transition DONE message slot) sh) = sh\<lparr>moved := moved sh + 1\<rparr>"
proof -
  have m: "blacklisted_urls sh \<subseteq> blacklisted_urls (snd (slot_iter env slot sh))"
    by (auto simp: slot_iter_def recycle_def assign_next_def Let_def
          split: prod.splits list.splits if_splits)
  have a: "set (pending_keys slots sh') \<inter> blacklisted_urls sh' = {}"
    if "distinct granted" "reach granted num_slots (slots, sh')"
    using reach_accounted [OF that(2) that(1)] by (auto simp: accounted_def)
  have b: "recycle slot sh =
        (slot\<lparr>tab_status := BLACKLISTED\<rparr>,
         sh\<lparr>blacklisted_urls := insert (job_url slot) (blacklisted_urls sh),
            permanently_failed := permanently_failed sh @ [job_url slot],
            coord_calls := coord_calls sh
               @ [Mark_failed (job_url slot) (''blacklisted: '' @ error_msg slot)]\<rparr>)"
    if "tab_status slot = ERROR" "BLACKLIST_THRESHOLD \<le> consecutive_errors slot"
    using that by (simp add: recycle_def Let_def)
  have c: "queue (snd (slot_iter env slot sh)) = queue sh
           \<or> queue (snd (slot_iter env slot sh)) = tl (queue sh)"
    if "tab_status slot = ERROR" "BLACKLIST_THRESHOLD \<le> consecutive_errors slot"
    using that by (simp add: slot_iter_def b assign_next_def split: list.splits)
  have d: "consecutive_errors (transition DONE message slot) = 0"
    by (simp add: transition_def Let_def)
  have e: "tab_status (fst (recycle (transition DONE message slot) sh)) = COUNTED"
    "snd (recycle (transition DONE message slot) sh) = sh\<lparr>moved := moved sh + 1\<rparr>"
    by (simp_all add: recycle_def)
  from a b c d e m show ?thesis by blast
qed

text \<open>
  The final accounting has no threshold: whatever its count, the URL of a slot left in
  \<^verbatim>\<open>ERROR\<close> is appended to the permanently failed list and reported with its plain error
  message, and nothing that was recorded before is lost. The slots themselves are not
  touched, so the slot stays in \<^verbatim>\<open>ERROR\<close>.
\<close>

lemma final_accounting_keeps:
  "set (permanently_failed sh) \<subseteq> set (permanently_failed (final_accounting slots sh))
   \<and> set (coord_calls sh) \<subseteq> set (coord_calls (final_accounting slots sh))
   \<and> blacklisted_urls (final_accounting slots sh) = blacklisted_urls sh"
proof (induction slots arbitrary: sh)
  case Nil
  show ?case by simp
next
  case (Cons s rest)
  show ?case
    using Cons.IH [of "sh\<lparr>moved := moved sh + 1\<rparr>"]
      Cons.IH [of "sh\<lparr>permanently_failed := permanently_failed sh @ [job_url s],
                    coord_calls := coord_calls sh @ [Mark_failed (job_url s) (error_msg s)]\<rparr>"]
      Cons.IH [of sh]
    by auto
qed

lemma final_accounting_error:
  assumes "slot \<in> set slots" and "tab_status slot = ERROR"
  shows "job_url slot \<in> set (permanently_failed (final_accounting slots sh))
         \<and> Mark_failed (job_url slot) (error_msg slot)
             \<in> set (coord_calls (final_accounting slots sh))"
  using assms
proof (induction slots arbitrary: sh)
  case Nil
  then show ?case by simp
next
  case (Cons s rest)
  show ?case
  proof (cases "slot = s")
    case True
    with Cons.prems(2)
    have "final_accounting (s # rest) sh
            = final_accounting rest
                (sh\<lparr>permanently_failed := permanently_failed sh @ [job_url slot],
                    coord_calls := coord_calls sh
                       @ [Mark_failed (job_url slot) (error_msg slot)]\<rparr>)"
      by simp
    then show ?thesis
      using final_accounting_keeps
              [of "sh\<lparr>permanently_failed := permanently_failed sh @ [job_url slot],
                      coord_calls := coord_calls sh
                         @ [Mark_failed (job_url slot) (error_msg slot)]\<rparr>" rest]
      by auto
  next
    case False
    with Cons.prems have "slot \<in> set rest" by simp
    from Cons.IH [OF this Cons.prems(2)] show ?thesis by simp
  qed
qed

text \<open>
  C7. A slot whose key reaches \<^verbatim>\<open>ERROR\<close> with a consecutive-error count of at least
  \<^verbatim>\<open>BLACKLIST_THRESHOLD\<close> is to become \<^verbatim>\<open>BLACKLISTED\<close>. It does not when that error
  ends the run. Two slots, two granted keys: slot 0 fails three times in a row on \<^verbatim>\<open>X\<close>
  while slot 1 is busy, and slot 1 then fails once. No slot is active and the queue is
  empty, so the loop ends before slot 0 is recycled: the final accounting records and
  reports \<^verbatim>\<open>X\<close>, without the \<^verbatim>\<open>blacklisted:\<close> prefix, and the slot is returned in
  \<^verbatim>\<open>ERROR\<close> with a count of 3. The same slot, had the loop recycled it, would have been
  blacklisted.
\<close>

theorem error_at_loop_end_divergence:
  "run_pipeline null_batch_claim failing_env 6 [''X'', ''Y''] 2 =
     Some ((0, [''X'', ''Y'']),
           [\<lparr>job_url = ''X'', tab_status = ERROR, error_msg = ''boom'', retry_count = 2,
              error_history = [''boom'', ''boom'', ''boom''], consecutive_errors = 3,
              tick_count = 1\<rparr>,
            \<lparr>job_url = ''Y'', tab_status = ERROR, error_msg = ''timeout'', retry_count = 0,
              error_history = [''timeout''], consecutive_errors = 1, tick_count = 5\<rparr>],
           [Mark_failed ''X'' ''boom'', Mark_failed ''Y'' ''timeout''])
   \<and> BLACKLIST_THRESHOLD = 3
   \<and> recycle \<lparr>job_url = ''X'', tab_status = ERROR, error_msg = ''boom'', retry_count = 2,
               error_history = [''boom'', ''boom'', ''boom''], consecutive_errors = 3,
               tick_count = 1\<rparr> (init_shared [])
       = (\<lparr>job_url = ''X'', tab_status = BLACKLISTED, error_msg = ''boom'', retry_count = 2,
            error_history = [''boom'', ''boom'', ''boom''], consecutive_errors = 3,
            tick_count = 1\<rparr>,
          (init_shared [])\<lparr>blacklisted_urls := {''X''}, permanently_failed := [''X''],
             coord_calls := [Mark_failed ''X'' ''blacklisted: boom'']\<rparr>)"
proof -
  have r: "run_pipeline null_batch_claim failing_env 6 [''X'', ''Y''] 2 =
     Some ((0, [''X'', ''Y'']),
           [\<lparr>job_url = ''X'', tab_status = ERROR, error_msg = ''boom'', retry_count = 2,
              error_history = [''boom'', ''boom'', ''boom''], consecutive_errors = 3,
              tick_count = 1\<rparr>,
            \<lparr>job_url = ''Y'', tab_status = ERROR, error_msg = ''timeout'', retry_count = 0,
              error_history = [''timeout''], consecutive_errors = 1, tick_count = 5\<rparr>],
           [Mark_failed ''X'' ''boom'', Mark_failed ''Y'' ''timeout''])"
    by code_simp
  show ?thesis
    unfolding r by (simp add: BLACKLIST_THRESHOLD_def recycle_def init_shared_def Let_def)
qed

text \<open>
  C8, as amended. When the granted keys are pairwise distinct, at every point of a run the
  completed count, the permanently failed keys, the queued keys and the keys in slots not
  yet counted, recycled or blacklisted (a slot that reached \<^verbatim>\<open>DONE\<close> or \<^verbatim>\<open>ERROR\<close> and
  awaits recycling is among them) add up to the number of granted keys; the failed and the
  waiting keys are pairwise distinct granted keys. When the run returns, the returned count
  and the length of the returned list add up to the number of granted keys.
\<close>

theorem accounting_invariant:
  assumes "distinct granted"
  shows "(reach granted num_slots (slots, sh) \<longrightarrow>
            moved sh + length (permanently_failed sh) + length (pending_keys slots sh)
              = length granted
            \<and> distinct (permanently_failed sh @ pending_keys slots sh)
            \<and> set (permanently_failed sh @ pending_keys slots sh) \<subseteq> set granted)
         \<and> (claimed job_urls = (granted, denied)
             \<and> run_pipeline claimed env fuel job_urls num_slots = Some ((m, pf), slots', calls) \<longrightarrow>
             m + length pf = length granted)"
  using reach_accounted [OF _ assms, of num_slots "(slots, sh)"] run_pipeline_total [OF assms]
  by (auto simp: accounted_def)

theorem accounting_invariant_witness:
  "distinct [''A''] \<and> reach [''A''] 1 (init_pipeline [''A''] 1)
   \<and> fresh_batch_claim [''A''] = ([''A''], [])
   \<and> moved (snd (init_pipeline [''A''] 1))
       + length (permanently_failed (snd (init_pipeline [''A''] 1)))
       + length (pending_keys (fst (init_pipeline [''A''] 1)) (snd (init_pipeline [''A''] 1)))
       = length [''A'']
   \<and> (1::nat) + length ([]::string list) = length [''A'']"
proof -
  have d: "distinct [''A'']" by simp
  have r: "reach [''A''] 1 (fst (init_pipeline [''A''] 1), snd (init_pipeline [''A''] 1))"
    using reach.start [of "[''A'']" 1] by simp
  have c: "fresh_batch_claim [''A''] = ([''A''], [])" by (rule fresh_claim_one)
  from accounting_invariant [OF d, of 1 "fst (init_pipeline [''A''] 1)" "snd (init_pipeline [''A''] 1)"
         fresh_batch_claim "[''A'']" "[]" elsewhere_env 3 1 "[]"
         "[(new_tab ''A'')\<lparr>tab_status := DONE, tick_count := 1\<rparr>]" "[]"]
       r c elsewhere_run
  show ?thesis by simp
qed

text \<open>
  The claim as stated fails between the tick that ends a job and the recycling of its slot.
  One granted key, one slot: after the first round the slot is in \<^verbatim>\<open>DONE\<close>, nothing is
  counted as completed or failed, nothing is queued and no slot is active. It also fails
  when a key is granted twice (\<^verbatim>\<open>NullCoordinator\<close> grants a list as it is): once the key
  is blacklisted its second copy is popped from the queue and dropped, and the run returns
  no completed and one failed key for two granted.
\<close>

theorem accounting_counterexample:
  "reach [''A''] 1 (round_slots (elsewhere_env 0) 0 (fst (init_pipeline [''A''] 1))
                      (snd (init_pipeline [''A''] 1)))
   \<and> map tab_status (fst (round_slots (elsewhere_env 0) 0 (fst (init_pipeline [''A''] 1))
                             (snd (init_pipeline [''A''] 1)))) = [DONE]
   \<and> moved (snd (round_slots (elsewhere_env 0) 0 (fst (init_pipeline [''A''] 1))
                   (snd (init_pipeline [''A''] 1))))
       + length (permanently_failed (snd (round_slots (elsewhere_env 0) 0
                   (fst (init_pipeline [''A''] 1)) (snd (init_pipeline [''A''] 1)))))
       + length (queue (snd (round_slots (elsewhere_env 0) 0 (fst (init_pipeline [''A''] 1))
                   (snd (init_pipeline [''A''] 1)))))
       + length (filter active (fst (round_slots (elsewhere_env 0) 0
                   (fst (init_pipeline [''A''] 1)) (snd (init_pipeline [''A''] 1)))))
       = 0
   \<and> length [''A''] = 1
   \<and> map_option fst (run_pipeline null_batch_claim failing_env 8 [''A'', ''A''] 1)
       = Some (0, [''A''])
   \<and> fst (null_batch_claim [''A'', ''A'']) = [''A'', ''A'']"
proof -
  have s: "reach [''A''] 1 ([] @ fst (init_pipeline [''A''] 1), snd (init_pipeline [''A''] 1))"
    using reach.start [of "[''A'']" 1] by simp
  have r: "reach [''A''] 1 (round_slots (elsewhere_env 0) 0 (fst (init_pipeline [''A''] 1))
                      (snd (init_pipeline [''A''] 1)))"
    using round_slots_reach [OF s, of "elsewhere_env 0" 0
            "fst (round_slots (elsewhere_env 0) 0 (fst (init_pipeline [''A''] 1))
                      (snd (init_pipeline [''A''] 1)))"
            "snd (round_slots (elsewhere_env 0) 0 (fst (init_pipeline [''A''] 1))
                      (snd (init_pipeline [''A''] 1)))"]
    by simp
  have v: "round_slots (elsewhere_env 0) 0 (fst (init_pipeline [''A''] 1))
             (snd (init_pipeline [''A''] 1))
           = ([(new_tab ''A'')\<lparr>tab_status := DONE, tick_count := 1\<rparr>], init_shared [])"
    by (simp add: init_pipeline_def init_shared_def new_tab_def slot_iter_def tick_slot_fast_def
          elsewhere_env_def transition_def Let_def)
  have w: "map_option fst (run_pipeline null_batch_claim failing_env 8 [''A'', ''A''] 1)
             = Some (0, [''A''])"
    by code_simp
  have n: "fst (null_batch_claim [''A'', ''A'']) = [''A'', ''A'']"
    by (simp add: null_batch_claim_def)
  show ?thesis
    using r w n unfolding v by (simp add: init_shared_def active_def)
qed

end
